theory Spec2Isabelle
  imports Main "HOL-Library.AList"
begin

section \<open>The XML tree\<close>

text \<open>
  An \<open>xml.etree.ElementTree.Element\<close> as the converter reads it: its tag, its text
  (\<open>None\<close> when the element has no text) and its direct children in document order.
  Attributes and tails are never read by \<open>xml_to_csv\<close>.
\<close>

datatype element = Element (tag: string) (text_of: "string option") (children: "element list")

text \<open>
  \<open>Element.iter(tag)\<close>: the element itself when its tag matches, then the matching
  elements of each child's subtree, in document order.
\<close>

fun iter :: "string \<Rightarrow> element \<Rightarrow> element list" where
  "iter t (Element g x cs) =
     (if g = t then [Element g x cs] else []) @ concat (map (iter t) cs)"

text \<open>
  \<open>root.findall('.//Sample')\<close>: the path is the step \<open>.\<close> (the context element)
  followed by the descendant step \<open>//Sample\<close>, whose selector in \<open>ElementPath\<close> is
  \<^verbatim>\<open>for e in elem.iter(tag): if e is not elem: yield e\<close>.
  An element is never a proper part of itself, so the identity test \<open>is not\<close> is the
  disequality of values here (lemma \<open>findall_descendant_children\<close> below).
\<close>

definition findall_descendant :: "string \<Rightarrow> element \<Rightarrow> element list" where
  "findall_descendant t elem = [e \<leftarrow> iter t elem. e \<noteq> elem]"

definition findall_Sample :: "element \<Rightarrow> element list" where
  "findall_Sample root = findall_descendant ''Sample'' root"

section \<open>Column order\<close>

text \<open>
  The two loops over \<open>child\<close> of lines 41-44 and 48-51 have the same body; the state is
  the pair \<open>(field_names, seen_fields)\<close>.
\<close>

fun collect_fields :: "element list \<Rightarrow> string list \<times> string set \<Rightarrow> string list \<times> string set" where
  "collect_fields [] st = st"
| "collect_fields (child # rest) (field_names, seen_fields) =
     (if tag child \<notin> seen_fields
      then collect_fields rest (field_names @ [tag child], insert (tag child) seen_fields)
      else collect_fields rest (field_names, seen_fields))"

fun collect_samples :: "element list \<Rightarrow> string list \<times> string set \<Rightarrow> string list \<times> string set" where
  "collect_samples [] st = st"
| "collect_samples (sample # rest) st = collect_samples rest (collect_fields (children sample) st)"

definition field_names_of :: "element list \<Rightarrow> string list" where
  "field_names_of samples =
     (let st0 = ([], {});
          st1 = (case samples of [] \<Rightarrow> st0 | s0 # _ \<Rightarrow> collect_fields (children s0) st0);
          st2 = collect_samples (drop 1 samples) st1
      in fst st2)"

section \<open>Rows and the dictionary writer\<close>

datatype py_error =
  ParseError | ValueError | FileNotFoundError | FileExistsError
  | NotADirectoryError | IsADirectoryError

text \<open>
  A Python \<open>dict\<close> keeps its keys in insertion order and an assignment to a key that is
  present replaces the value in place: this is \<open>AList.update\<close> on an association list.
\<close>

type_synonym rowdict = "(string \<times> string) list"

fun build_row :: "element list \<Rightarrow> rowdict \<Rightarrow> rowdict" where
  "build_row [] row = row"
| "build_row (child # rest) row =
     build_row rest
       (AList.update (tag child) (case text_of child of None \<Rightarrow> '''' | Some s \<Rightarrow> s) row)"

text \<open>
  \<open>csv.DictWriter\<close> as constructed on line 55: \<open>restval\<close> is the empty string and
  \<open>extrasaction\<close> is \<open>raise\<close>. A written file is the list of the rows handed to the
  underlying \<open>csv.writer\<close>, each row the list of its cells; the quoting and the line
  terminator of the text are the writer's.
\<close>

definition restval :: string where
  "restval = ''''"

definition dict_to_list :: "string list \<Rightarrow> rowdict \<Rightarrow> py_error + string list" where
  "dict_to_list fieldnames rd =
     (let wrong_fields = [k \<leftarrow> map fst rd. k \<notin> set fieldnames]
      in if wrong_fields \<noteq> [] then Inl ValueError
         else Inr (map (\<lambda>key. case map_of rd key of None \<Rightarrow> restval | Some v \<Rightarrow> v) fieldnames))"

definition dict_zip :: "string list \<Rightarrow> string list \<Rightarrow> rowdict" where
  "dict_zip ks vs = fold (\<lambda>(k, v) d. AList.update k v d) (zip ks vs) []"

definition writerow :: "string list \<Rightarrow> rowdict \<Rightarrow> string list list \<Rightarrow> py_error + string list list" where
  "writerow fieldnames rd written =
     (case dict_to_list fieldnames rd of
        Inl e \<Rightarrow> Inl e
      | Inr cells \<Rightarrow> Inr (written @ [cells]))"

definition writeheader :: "string list \<Rightarrow> string list list \<Rightarrow> py_error + string list list" where
  "writeheader fieldnames written = writerow fieldnames (dict_zip fieldnames fieldnames) written"

text \<open>
  The loop of lines 59-64. An exception of \<open>writerow\<close> leaves the block with the rows
  written so far in the file.
\<close>

fun write_samples :: "string list \<Rightarrow> element list \<Rightarrow> string list list \<Rightarrow> string list list \<times> py_error option" where
  "write_samples fieldnames [] written = (written, None)"
| "write_samples fieldnames (sample # rest) written =
     (case writerow fieldnames (build_row (children sample) []) written of
        Inl e \<Rightarrow> (written, Some e)
      | Inr written' \<Rightarrow> write_samples fieldnames rest written')"

definition write_csv :: "string list \<Rightarrow> element list \<Rightarrow> string list list \<times> py_error option" where
  "write_csv fieldnames samples =
     (case writeheader fieldnames [] of
        Inl e \<Rightarrow> ([], Some e)
      | Inr written \<Rightarrow> write_samples fieldnames samples written)"

section \<open>The file system\<close>

text \<open>
  A path is the list of its components below the root; the root itself always is a
  directory. A regular file holds a well-formed XML document, bytes that are not
  well-formed XML, or the rows written by a \<open>csv.writer\<close>. The file system maps paths
  to nodes, in the order in which a directory listing returns them. Permissions and
  symbolic links are not modelled.
\<close>

type_synonym path = "string list"

datatype content = Xml element | Malformed | Csv "string list list"

datatype node = Dir | File content

type_synonym fs = "(path \<times> node) list"

definition lookup :: "fs \<Rightarrow> path \<Rightarrow> node option" where
  "lookup fs p = (if p = [] then Some Dir else map_of fs p)"

definition path_exists :: "fs \<Rightarrow> path \<Rightarrow> bool" where
  "path_exists fs p = (lookup fs p \<noteq> None)"

definition is_dir :: "fs \<Rightarrow> path \<Rightarrow> bool" where
  "is_dir fs p = (lookup fs p = Some Dir)"

text \<open>\<open>ET.parse\<close> followed by \<open>getroot\<close> (lines 24-25).\<close>

definition ET_parse :: "fs \<Rightarrow> path \<Rightarrow> py_error + element" where
  "ET_parse fs p =
     (case lookup fs p of
        None \<Rightarrow> Inl FileNotFoundError
      | Some Dir \<Rightarrow> Inl IsADirectoryError
      | Some (File (Xml root)) \<Rightarrow> Inr root
      | Some (File _) \<Rightarrow> Inl ParseError)"

text \<open>\<open>open(path, 'w')\<close>: creates the file or truncates it.\<close>

definition open_w :: "fs \<Rightarrow> path \<Rightarrow> py_error + fs" where
  "open_w fs p =
     (case lookup fs p of
        Some Dir \<Rightarrow> Inl IsADirectoryError
      | _ \<Rightarrow>
          (case lookup fs (butlast p) of
             None \<Rightarrow> Inl FileNotFoundError
           | Some (File _) \<Rightarrow> Inl NotADirectoryError
           | Some Dir \<Rightarrow> Inr (AList.update p (File (Csv [])) fs)))"

definition os_mkdir :: "fs \<Rightarrow> path \<Rightarrow> py_error + fs" where
  "os_mkdir fs p =
     (if lookup fs p \<noteq> None then Inl FileExistsError
      else case lookup fs (butlast p) of
             None \<Rightarrow> Inl FileNotFoundError
           | Some (File _) \<Rightarrow> Inl NotADirectoryError
           | Some Dir \<Rightarrow> Inr (AList.update p Dir fs))"

text \<open>
  \<open>pathlib.Path.mkdir(parents, exist_ok)\<close>: the \<open>except FileNotFoundError\<close> clause
  comes first, every other error of \<open>os.mkdir\<close> is an \<open>OSError\<close>.
\<close>

function mkdir :: "bool \<Rightarrow> bool \<Rightarrow> fs \<Rightarrow> path \<Rightarrow> py_error + fs" where
  "mkdir parents exist_ok fs p =
     (case os_mkdir fs p of
        Inr fs' \<Rightarrow> Inr fs'
      | Inl e \<Rightarrow>
          if e = FileNotFoundError then
            (if \<not> parents \<or> butlast p = p then Inl e
             else (case mkdir True True fs (butlast p) of
                     Inl e' \<Rightarrow> Inl e'
                   | Inr fs' \<Rightarrow> mkdir False exist_ok fs' p))
          else if \<not> exist_ok \<or> \<not> is_dir fs p then Inl e
          else Inr fs)"
  by pat_completeness auto
termination
proof (relation "measure (\<lambda>(parents, exist_ok, fs, p). 2 * length p + (if parents then 1 else 0))")
  show "wf (measure (\<lambda>(parents, exist_ok, fs, p). 2 * length p + (if parents then 1 else 0)))"
    by simp
next
  fix parents exist_ok :: bool and fs :: fs and p :: path and e :: py_error
  assume "\<not> (\<not> parents \<or> butlast p = p)"
  then have "p \<noteq> []" by auto
  then show "((True, True, fs, butlast p), parents, exist_ok, fs, p)
      \<in> measure (\<lambda>(parents, exist_ok, fs, p). 2 * length p + (if parents then 1 else 0))"
    by (cases p rule: rev_cases) auto
next
  fix parents exist_ok :: bool and fs fs' :: fs and p :: path
  assume "\<not> (\<not> parents \<or> butlast p = p)"
  then show "((False, exist_ok, fs', p), parents, exist_ok, fs, p)
      \<in> measure (\<lambda>(parents, exist_ok, fs, p). 2 * length p + (if parents then 1 else 0))"
    by simp
qed

text \<open>
  \<open>Path.glob('*.xml')\<close>: no entry of a path that is not a directory; otherwise the
  entries of the directory, hidden ones included, whose whole name matches the pattern,
  that is, ends in \<open>.xml\<close>.
\<close>

definition listdir :: "fs \<Rightarrow> path \<Rightarrow> string list" where
  "listdir fs d = remdups [last p. p \<leftarrow> map fst fs, p \<noteq> [] \<and> butlast p = d]"

definition fnmatch_xml :: "string \<Rightarrow> bool" where
  "fnmatch_xml name = (4 \<le> length name \<and> drop (length name - 4) name = ''.xml'')"

definition glob_xml :: "fs \<Rightarrow> path \<Rightarrow> path list" where
  "glob_xml fs d = (if is_dir fs d then [d @ [name]. name \<leftarrow> listdir fs d, fnmatch_xml name] else [])"

text \<open>\<open>str.rfind\<close> of one character and \<open>PurePath.stem\<close>.\<close>

definition rfind :: "char \<Rightarrow> string \<Rightarrow> int" where
  "rfind c s =
     (if c \<in> set s then int (length s) - 1 - int (length (takeWhile (\<lambda>x. x \<noteq> c) (rev s)))
      else - 1)"

definition stem :: "string \<Rightarrow> string" where
  "stem name =
     (let i = rfind CHR ''.'' name
      in if 0 < i \<and> i < int (length name) - 1 then take (nat i) name else name)"

section \<open>The converter and the driver\<close>

datatype message =
  Warning_no_samples path
  | Successfully_converted path path
  | Found_samples nat
  | Created_columns nat
  | Error_parsing path
  | Error_processing path py_error
  | Error_no_xml_directory path
  | No_xml_files path
  | Found_files nat
  | Processing string
  | Blank

text \<open>
  The body of the \<open>try\<close> block of \<open>xml_to_csv\<close>: the file system it leaves, and the
  printed lines or the exception raised.
\<close>

definition xml_to_csv_try :: "fs \<Rightarrow> path \<Rightarrow> path \<Rightarrow> fs \<times> (py_error + message list)" where
  "xml_to_csv_try fs xml_file_path csv_file_path =
     (case ET_parse fs xml_file_path of
        Inl e \<Rightarrow> (fs, Inl e)
      | Inr root \<Rightarrow>
          (let samples = findall_Sample root in
           if samples = [] then (fs, Inr [Warning_no_samples xml_file_path])
           else
             (let field_names = field_names_of samples in
              case open_w fs csv_file_path of
                Inl e \<Rightarrow> (fs, Inl e)
              | Inr fs1 \<Rightarrow>
                  (case write_csv field_names samples of
                     (written, Some e) \<Rightarrow>
                       (AList.update csv_file_path (File (Csv written)) fs1, Inl e)
                   | (written, None) \<Rightarrow>
                       (AList.update csv_file_path (File (Csv written)) fs1,
                        Inr [Successfully_converted xml_file_path csv_file_path,
                             Found_samples (length samples),
                             Created_columns (length field_names)])))))"

text \<open>The two \<open>except\<close> clauses: \<open>ET.ParseError\<close> first, then any \<open>Exception\<close>.\<close>

definition xml_to_csv :: "fs \<Rightarrow> path \<Rightarrow> path \<Rightarrow> fs \<times> message list" where
  "xml_to_csv fs xml_file_path csv_file_path =
     (case xml_to_csv_try fs xml_file_path csv_file_path of
        (fs', Inr out) \<Rightarrow> (fs', out)
      | (fs', Inl e) \<Rightarrow>
          (fs', [if e = ParseError then Error_parsing xml_file_path
                 else Error_processing xml_file_path e]))"

text \<open>
  The loop of lines 101-108; \<open>xml_file.name\<close> is the last component of the path and
  \<open>csv_filename_of\<close> is line 103.
\<close>

definition csv_filename_of :: "path \<Rightarrow> string" where
  "csv_filename_of xml_file = stem (last xml_file) @ ''.csv''"

fun process_files :: "path \<Rightarrow> fs \<Rightarrow> path list \<Rightarrow> fs \<times> message list" where
  "process_files csv_dir fs [] = (fs, [])"
| "process_files csv_dir fs (xml_file # rest) =
     (let csv_filename = csv_filename_of xml_file;
          csv_file_path = csv_dir @ [csv_filename];
          (fs1, out) = xml_to_csv fs xml_file csv_file_path;
          (fs2, out') = process_files csv_dir fs1 rest
      in (fs2, [Processing (last xml_file)] @ out @ [Blank] @ out'))"

text \<open>
  \<open>main\<close>, from the directory of the script and the file system it starts in. An
  exception of \<open>mkdir\<close> is caught nowhere and ends the run.
\<close>

definition main :: "path \<Rightarrow> fs \<Rightarrow> py_error + fs \<times> message list" where
  "main script_dir fs =
     (let xml_dir = script_dir @ [''xml''];
          csv_dir = xml_dir @ [''csv'']
      in case mkdir True True fs csv_dir of
           Inl e \<Rightarrow> Inl e
         | Inr fs1 \<Rightarrow>
             if \<not> path_exists fs1 xml_dir then Inr (fs1, [Error_no_xml_directory xml_dir])
             else
               (let xml_files = glob_xml fs1 xml_dir in
                if xml_files = [] then Inr (fs1, [No_xml_files xml_dir])
                else
                  (let (fs2, out) = process_files csv_dir fs1 xml_files
                   in Inr (fs2, Found_files (length xml_files) # out))))"

section \<open>Reference notions of the specification\<close>

text \<open>
  All elements of a tree in document order (an element before its children, the
  children from first to last), and the proper descendants of an element.
\<close>


fun elements :: "element \<Rightarrow> element list" where
  "elements (Element g x cs) = Element g x cs # concat (map elements cs)"

definition descendants :: "element \<Rightarrow> element list" where
  "descendants e = concat (map elements (children e))"

definition elements_named :: "string \<Rightarrow> element \<Rightarrow> element list" where
  "elements_named t root = [e \<leftarrow> elements root. tag e = t]"

definition descendants_named :: "string \<Rightarrow> element \<Rightarrow> element list" where
  "descendants_named t root = [e \<leftarrow> descendants root. tag e = t]"

text \<open>A list with every later duplicate dropped: the first occurrence wins.\<close>

fun first_occurrences :: "'a list \<Rightarrow> 'a list" where
  "first_occurrences [] = []"
| "first_occurrences (x # xs) = x # first_occurrences [y \<leftarrow> xs. y \<noteq> x]"

definition tags :: "element \<Rightarrow> string list" where
  "tags sample = map tag (children sample)"

text \<open>
  The column order in the words of the specification: the tags of the first sample,
  duplicates dropped, then the tags of the remaining samples that are not recorded yet.
\<close>

definition spec_column_order :: "element list \<Rightarrow> string list" where
  "spec_column_order samples =
     (let base = first_occurrences (tags (hd samples))
      in base @ [t \<leftarrow> first_occurrences (concat (map tags (tl samples))). t \<notin> set base])"

text \<open>
  Observations on the result: the rows of a CSV file, and the cell of data row \<open>i\<close>
  in the column that the header names. \<open>expected_cell\<close> is the cell the specification
  asks for, where the child assigned last decides.
\<close>

definition cell_text :: "element \<Rightarrow> string" where
  "cell_text child = (case text_of child of None \<Rightarrow> '''' | Some s \<Rightarrow> s)"

definition expected_cell :: "element \<Rightarrow> string \<Rightarrow> string" where
  "expected_cell sample column =
     (case find (\<lambda>child. tag child = column) (rev (children sample)) of
        None \<Rightarrow> ''''
      | Some child \<Rightarrow> cell_text child)"

definition csv_at :: "fs \<Rightarrow> path \<Rightarrow> string list list option" where
  "csv_at fs p = (case lookup fs p of Some (File (Csv rows)) \<Rightarrow> Some rows | _ \<Rightarrow> None)"

definition emitted_cell :: "string list list \<Rightarrow> nat \<Rightarrow> string \<Rightarrow> string option" where
  "emitted_cell rows i column =
     (case rows of
        [] \<Rightarrow> None
      | header # data \<Rightarrow>
          (let j = length (takeWhile (\<lambda>h. h \<noteq> column) header)
           in if i < length data \<and> j < length header \<and> j < length (data ! i)
              then Some (data ! i ! j) else None))"

text \<open>A well-formed file system: every entry lies in a directory.\<close>

definition wf_fs :: "fs \<Rightarrow> bool" where
  "wf_fs fs = list_all (\<lambda>(p, n). is_dir fs (butlast p)) fs"

declare mkdir.simps [simp del]

section \<open>Collecting the samples\<close>

lemma iter_elements: "iter t e = [x \<leftarrow> elements e. tag x = t]"
proof (induction t e rule: iter.induct)
  case (1 t g x cs)
  have "concat (map (iter t) cs) = concat (map (\<lambda>c. [x \<leftarrow> elements c. tag x = t]) cs)"
    using 1 by (auto intro!: arg_cong [where f = concat])
  then show ?case by (simp add: filter_concat comp_def)
qed

lemma iter_elements_fun: "iter t = (\<lambda>e. [x \<leftarrow> elements e. tag x = t])"
  by (rule ext) (rule iter_elements)

lemma elements_size: "e \<in> set (elements x) \<Longrightarrow> size e \<le> size x"
proof (induction x arbitrary: e rule: elements.induct)
  case (1 g x cs)
  show ?case
  proof (cases "e = Element g x cs")
    case True
    then show ?thesis by simp
  next
    case False
    with 1(2) obtain c where c: "c \<in> set cs" "e \<in> set (elements c)" by auto
    then have "size e \<le> size c" using 1(1) by blast
    moreover have "size c \<le> size_list size cs" using c(1) by (simp add: size_list_estimation')
    ultimately show ?thesis by simp
  qed
qed

lemma root_notin_descendants: "e \<in> set (descendants root) \<Longrightarrow> e \<noteq> root"
proof
  assume e: "e \<in> set (descendants root)" and eq: "e = root"
  obtain g x cs where r: "root = Element g x cs" by (cases root)
  from e r obtain c where c: "c \<in> set cs" "e \<in> set (elements c)"
    by (auto simp: descendants_def)
  then have "size e \<le> size c" by (rule_tac elements_size)
  moreover have "size c \<le> size_list size cs" using c(1) by (simp add: size_list_estimation')
  ultimately show False using eq r by simp
qed

lemma elements_descendants: "elements root = root # descendants root"
  by (cases root) (simp add: descendants_def)

lemma findall_descendant_children:
  "findall_descendant t root = concat (map (iter t) (children root))"
proof -
  have "findall_descendant t root = [e \<leftarrow> root # descendants root. tag e = t \<and> e \<noteq> root]"
    by (simp add: findall_descendant_def iter_elements elements_descendants conj_commute)
  also have "\<dots> = [e \<leftarrow> descendants root. tag e = t \<and> e \<noteq> root]" by simp
  also have "\<dots> = [e \<leftarrow> descendants root. tag e = t]"
    by (rule filter_cong) (auto dest: root_notin_descendants)
  also have "\<dots> = concat (map (iter t) (children root))"
    by (simp add: descendants_def filter_concat comp_def iter_elements_fun)
  finally show ?thesis .
qed

text \<open>
  What the search of line 28 returns: the elements named \<open>Sample\<close> among the proper
  descendants of the root, at any depth, in document order.
\<close>

lemma findall_Sample_descendants: "findall_Sample root = descendants_named ''Sample'' root"
  by (simp add: findall_Sample_def findall_descendant_children descendants_named_def
      descendants_def filter_concat comp_def iter_elements_fun)

text \<open>
  Claim C6 at a document whose root element is named \<open>Sample\<close>: the root is an
  element named \<open>Sample\<close> of the tree, the only one, and the search does not collect
  it. The converter then prints that no \<open>Sample\<close> element was found and writes no
  file, where the docstring promises a row for each \<open>Sample\<close> section and the comment
  of line 27 says that all \<open>Sample\<close> elements are found.
\<close>

theorem findall_Sample_root_not_collected:
  "elements_named ''Sample'' (Element ''Sample'' None [Element ''a'' (Some ''1'') []])
     = [Element ''Sample'' None [Element ''a'' (Some ''1'') []]]
   \<and> findall_Sample (Element ''Sample'' None [Element ''a'' (Some ''1'') []]) = []
   \<and> xml_to_csv
       [([''xml''], Dir), ([''xml'', ''csv''], Dir),
        ([''xml'', ''a.xml''], File (Xml (Element ''Sample'' None [Element ''a'' (Some ''1'') []])))]
       [''xml'', ''a.xml''] [''xml'', ''csv'', ''a.csv'']
     = ([([''xml''], Dir), ([''xml'', ''csv''], Dir),
         ([''xml'', ''a.xml''], File (Xml (Element ''Sample'' None [Element ''a'' (Some ''1'') []])))],
        [Warning_no_samples [''xml'', ''a.xml'']])"
  by (simp add: elements_named_def findall_Sample_def findall_descendant_def
      xml_to_csv_def xml_to_csv_try_def ET_parse_def lookup_def)

section \<open>The column order\<close>

lemma first_occurrences_filter:
  "first_occurrences (filter P xs) = filter P (first_occurrences xs)"
proof (induction xs rule: first_occurrences.induct)
  case 1
  then show ?case by simp
next
  case (2 x xs)
  have comm: "[y \<leftarrow> filter P xs. y \<noteq> x] = filter P [y \<leftarrow> xs. y \<noteq> x]"
    by (simp add: conj_commute)
  show ?case
  proof (cases "P x")
    case True
    then have "first_occurrences (filter P (x # xs)) = x # first_occurrences (filter P [y \<leftarrow> xs. y \<noteq> x])"
      by (simp only: filter.simps if_True first_occurrences.simps comm)
    also have "\<dots> = x # filter P (first_occurrences [y \<leftarrow> xs. y \<noteq> x])"
      by (simp only: 2)
    also have "\<dots> = filter P (first_occurrences (x # xs))"
      using True by simp
    finally show ?thesis .
  next
    case False
    then have "filter P xs = filter P [y \<leftarrow> xs. y \<noteq> x]"
      by (auto intro: filter_cong)
    then have "first_occurrences (filter P (x # xs)) = first_occurrences (filter P [y \<leftarrow> xs. y \<noteq> x])"
      using False by simp
    also have "\<dots> = filter P (first_occurrences [y \<leftarrow> xs. y \<noteq> x])"
      by (simp only: 2)
    also have "\<dots> = filter P (first_occurrences (x # xs))"
      using False by simp
    finally show ?thesis .
  qed
qed

lemma set_first_occurrences [simp]: "set (first_occurrences xs) = set xs"
  by (induction xs rule: first_occurrences.induct) auto

lemma distinct_first_occurrences [simp]: "distinct (first_occurrences xs)"
  by (induction xs rule: first_occurrences.induct) auto

lemma first_occurrences_append:
  "first_occurrences (xs @ ys) = first_occurrences xs @ [y \<leftarrow> first_occurrences ys. y \<notin> set xs]"
proof (induction xs arbitrary: ys rule: first_occurrences.induct)
  case 1
  then show ?case by simp
next
  case (2 x xs)
  have "first_occurrences ((x # xs) @ ys) = x # first_occurrences ([y \<leftarrow> xs. y \<noteq> x] @ [y \<leftarrow> ys. y \<noteq> x])"
    by simp
  also have "\<dots> = x # first_occurrences [y \<leftarrow> xs. y \<noteq> x]
      @ [y \<leftarrow> first_occurrences [y \<leftarrow> ys. y \<noteq> x]. y \<notin> set [y \<leftarrow> xs. y \<noteq> x]]"
    by (simp add: 2)
  also have "[y \<leftarrow> first_occurrences [y \<leftarrow> ys. y \<noteq> x]. y \<notin> set [y \<leftarrow> xs. y \<noteq> x]]
      = [y \<leftarrow> first_occurrences ys. y \<notin> set (x # xs)]"
    by (auto simp: first_occurrences_filter intro: filter_cong)
  finally show ?case by simp
qed

lemma collect_fields_eq:
  "collect_fields cs (fns, set fns) =
     (fns @ [t \<leftarrow> first_occurrences (map tag cs). t \<notin> set fns], set fns \<union> tag ` set cs)"
proof (induction cs arbitrary: fns)
  case Nil
  then show ?case by simp
next
  case (Cons c cs)
  show ?case
  proof (cases "tag c \<in> set fns")
    case True
    have "[t \<leftarrow> first_occurrences [y \<leftarrow> map tag cs. y \<noteq> tag c]. t \<notin> set fns]
        = [t \<leftarrow> first_occurrences (map tag cs). t \<notin> set fns]"
      using True by (auto simp: first_occurrences_filter intro: filter_cong)
    then show ?thesis using True Cons [of fns] by auto
  next
    case False
    have "[t \<leftarrow> first_occurrences (map tag cs). t \<notin> set (fns @ [tag c])]
        = [t \<leftarrow> first_occurrences [y \<leftarrow> map tag cs. y \<noteq> tag c]. t \<notin> set fns]"
      by (auto simp: first_occurrences_filter intro: filter_cong)
    moreover have "collect_fields (c # cs) (fns, set fns)
        = collect_fields cs (fns @ [tag c], set (fns @ [tag c]))"
      using False by simp
    ultimately show ?thesis using False Cons [of "fns @ [tag c]"] by auto
  qed
qed

lemma collect_samples_eq:
  "collect_samples ss (fns, set fns) =
     (fns @ [t \<leftarrow> first_occurrences (concat (map tags ss)). t \<notin> set fns],
      set fns \<union> set (concat (map tags ss)))"
proof (induction ss arbitrary: fns)
  case Nil
  then show ?case by simp
next
  case (Cons s ss)
  let ?f = "fns @ [t \<leftarrow> first_occurrences (tags s). t \<notin> set fns]"
  have 1: "collect_fields (children s) (fns, set fns) = (?f, set ?f)"
    by (auto simp: collect_fields_eq tags_def)
  have 2: "[t \<leftarrow> first_occurrences (concat (map tags ss)). t \<notin> set ?f]
      = [t \<leftarrow> first_occurrences (concat (map tags ss)). t \<notin> set (tags s) \<and> t \<notin> set fns]"
    by (auto intro: filter_cong)
  show ?case
    by (simp only: collect_samples.simps 1 Cons [of ?f] 2)
       (auto simp: first_occurrences_append)
qed

lemma field_names_first_occurrences:
  "field_names_of samples = first_occurrences (concat (map tags samples))"
proof (cases samples)
  case Nil
  then show ?thesis by (simp add: field_names_of_def)
next
  case (Cons s ss)
  let ?f = "first_occurrences (tags s)"
  have 1: "collect_fields (children s) ([], {}) = (?f, set ?f)"
    using collect_fields_eq [of "children s" "[]"] by (simp add: tags_def)
  have "field_names_of samples = fst (collect_samples ss (?f, set ?f))"
    using Cons by (simp only: field_names_of_def Let_def list.case 1 drop_Suc_Cons drop_0 One_nat_def)
  also have "\<dots> = ?f @ [t \<leftarrow> first_occurrences (concat (map tags ss)). t \<notin> set ?f]"
    by (simp only: collect_samples_eq fst_conv)
  also have "\<dots> = first_occurrences (concat (map tags samples))"
    using Cons by (simp add: first_occurrences_append)
  finally show ?thesis .
qed

text \<open>
  Claim C1: for a document with at least one sample, the column order computed by the
  converter is the first sample's child tags in encounter order with duplicates dropped
  (first occurrence wins), followed by the child tags of the remaining samples, in
  encounter order, that were not recorded already.
\<close>

theorem field_names_of_spec_column_order:
  "samples \<noteq> [] \<Longrightarrow> field_names_of samples = spec_column_order samples"
  by (cases samples)
     (simp_all add: field_names_first_occurrences spec_column_order_def first_occurrences_append)

theorem field_names_of_spec_column_order_witness:
  "[Element ''Sample'' None [Element ''Name'' (Some ''Alice'') [], Element ''Age'' (Some ''30'') [],
       Element ''Name'' None []],
    Element ''Sample'' None [Element ''Name'' (Some ''Bob'') [], Element ''City'' (Some ''NYC'') []]]
     \<noteq> []
   \<and> field_names_of
       [Element ''Sample'' None [Element ''Name'' (Some ''Alice'') [], Element ''Age'' (Some ''30'') [],
          Element ''Name'' None []],
        Element ''Sample'' None [Element ''Name'' (Some ''Bob'') [], Element ''City'' (Some ''NYC'') []]]
     = [''Name'', ''Age'', ''City'']"
  using field_names_of_spec_column_order
    [of "[Element ''Sample'' None [Element ''Name'' (Some ''Alice'') [], Element ''Age'' (Some ''30'') [],
            Element ''Name'' None []],
          Element ''Sample'' None [Element ''Name'' (Some ''Bob'') [], Element ''City'' (Some ''NYC'') []]]"]
  by (simp add: spec_column_order_def tags_def)

section \<open>The rows of the written file\<close>

lemma find_app:
  "find P (xs @ ys) = (case find P xs of None \<Rightarrow> find P ys | Some y \<Rightarrow> Some y)"
  by (induction xs) auto

lemma takeWhile_neq_less:
  "x \<in> set xs \<Longrightarrow> length (takeWhile (\<lambda>h. h \<noteq> x) xs) < length xs"
  by (induction xs) auto

lemma map_of_build_row:
  "map_of (build_row cs row) k =
     (case find (\<lambda>c. tag c = k) (rev cs) of
        None \<Rightarrow> map_of row k
      | Some c \<Rightarrow> Some (cell_text c))"
proof (induction cs arbitrary: row)
  case Nil
  then show ?case by simp
next
  case (Cons c cs)
  show ?case
    by (simp add: Cons find_app update_conv' cell_text_def split: option.split)
qed

lemma keys_build_row: "fst ` set (build_row cs row) = fst ` set row \<union> tag ` set cs"
  by (induction cs arbitrary: row) (auto simp: dom_update)

lemma dict_to_list_ok:
  "fst ` set rd \<subseteq> set fieldnames \<Longrightarrow>
   dict_to_list fieldnames rd =
     Inr (map (\<lambda>key. case map_of rd key of None \<Rightarrow> '''' | Some v \<Rightarrow> v) fieldnames)"
  by (auto simp: dict_to_list_def restval_def filter_empty_conv split: option.split)

lemma row_cells:
  "tag ` set (children sample) \<subseteq> set fieldnames \<Longrightarrow>
   dict_to_list fieldnames (build_row (children sample) []) =
     Inr (map (expected_cell sample) fieldnames)"
  by (simp add: dict_to_list_ok keys_build_row map_of_build_row expected_cell_def
      split: option.split cong: map_cong)

lemma write_samples_ok:
  "\<forall>s \<in> set samples. tag ` set (children s) \<subseteq> set fieldnames \<Longrightarrow>
   write_samples fieldnames samples written =
     (written @ map (\<lambda>s. map (expected_cell s) fieldnames) samples, None)"
  by (induction samples arbitrary: written) (simp_all add: writerow_def row_cells)

lemma fold_update_same:
  "map_of (fold (\<lambda>(k, v) d. AList.update k v d) (map (\<lambda>k. (k, k)) ks) d) k =
     (if k \<in> set ks then Some k else map_of d k)"
  by (induction ks arbitrary: d) (auto simp: update_conv')

lemma keys_fold_update:
  "fst ` set (fold (\<lambda>(k, v) d. AList.update k v d) (map (\<lambda>k. (k, k)) ks) d) = fst ` set d \<union> set ks"
  by (induction ks arbitrary: d) (auto simp: dom_update)

lemma writeheader_ok: "writeheader fieldnames written = Inr (written @ [fieldnames])"
proof -
  have "dict_to_list fieldnames (dict_zip fieldnames fieldnames) =
      Inr (map (\<lambda>key. case map_of (dict_zip fieldnames fieldnames) key of None \<Rightarrow> '''' | Some v \<Rightarrow> v) fieldnames)"
    by (rule dict_to_list_ok) (simp add: dict_zip_def zip_same_conv_map keys_fold_update)
  also have "map (\<lambda>key. case map_of (dict_zip fieldnames fieldnames) key of None \<Rightarrow> '''' | Some v \<Rightarrow> v) fieldnames
      = fieldnames"
    by (simp add: dict_zip_def zip_same_conv_map fold_update_same map_idI)
  finally show ?thesis by (simp add: writeheader_def writerow_def)
qed

lemma tags_in_field_names:
  "s \<in> set samples \<Longrightarrow> tag ` set (children s) \<subseteq> set (field_names_of samples)"
  by (auto simp: field_names_first_occurrences tags_def)

lemma write_csv_ok:
  "write_csv (field_names_of samples) samples =
     (field_names_of samples # map (\<lambda>s. map (expected_cell s) (field_names_of samples)) samples, None)"
  using tags_in_field_names [of _ samples]
  by (simp add: write_csv_def writeheader_ok write_samples_ok)

lemma distinct_field_names: "distinct (field_names_of samples)"
  by (simp add: field_names_first_occurrences)

lemma open_w_lookup:
  "open_w fs p = Inr fs1 \<Longrightarrow> p \<noteq> [] \<and> fs1 = AList.update p (File (Csv [])) fs"
  by (auto simp: open_w_def lookup_def split: option.splits node.splits if_splits)

lemma xml_to_csv_written:
  assumes "ET_parse fs x = Inr root" and "findall_Sample root \<noteq> []"
    and "open_w fs c = Inr fs1"
  shows "xml_to_csv fs x c =
     (AList.update c
        (File (Csv (field_names_of (findall_Sample root)
           # map (\<lambda>s. map (expected_cell s) (field_names_of (findall_Sample root)))
               (findall_Sample root)))) fs,
      [Successfully_converted x c, Found_samples (length (findall_Sample root)),
       Created_columns (length (field_names_of (findall_Sample root)))])"
  using assms open_w_lookup [OF assms(3)]
  by (simp add: xml_to_csv_def xml_to_csv_try_def write_csv_ok Let_def)

lemma csv_at_update: "p \<noteq> [] \<Longrightarrow> csv_at (AList.update p (File (Csv rows)) fs) p = Some rows"
  by (simp add: csv_at_def lookup_def update_conv')

lemma emitted_cell_rows:
  assumes "i < length samples" and "column \<in> set fieldnames"
  shows "emitted_cell (fieldnames # map (\<lambda>s. map (f s) fieldnames) samples) i column
      = Some (f (samples ! i) column)"
proof -
  let ?j = "length (takeWhile (\<lambda>h. h \<noteq> column) fieldnames)"
  have j: "?j < length fieldnames"
    using assms(2) by (rule takeWhile_neq_less)
  then have "fieldnames ! ?j = column"
    using nth_length_takeWhile [of "\<lambda>h. h \<noteq> column" fieldnames] by simp
  then show ?thesis
    using assms(1) j by (simp add: emitted_cell_def Let_def)
qed

text \<open>
  Claim C2: when the converter writes a file (the document parses, it has at least one
  collected sample, and the output file can be opened), the file holds exactly the
  header row, which is the computed column order, followed by exactly one data row per
  collected sample, in the order of the samples: the \<open>i\<close>-th data row is the row that
  \<open>DictWriter\<close> makes of the \<open>i\<close>-th sample, and no row raises.
\<close>

theorem xml_to_csv_header_and_rows:
  assumes "ET_parse fs x = Inr root" and "findall_Sample root \<noteq> []"
    and "open_w fs c = Inr fs1"
  shows "\<exists>data. csv_at (fst (xml_to_csv fs x c)) c = Some (field_names_of (findall_Sample root) # data)
      \<and> map (\<lambda>sample. dict_to_list (field_names_of (findall_Sample root)) (build_row (children sample) []))
            (findall_Sample root) = map Inr data"
proof -
  let ?samples = "findall_Sample root"
  let ?data = "map (\<lambda>s. map (expected_cell s) (field_names_of ?samples)) ?samples"
  have "csv_at (fst (xml_to_csv fs x c)) c = Some (field_names_of ?samples # ?data)"
    using open_w_lookup [OF assms(3)] by (simp add: xml_to_csv_written [OF assms] csv_at_update)
  moreover have "map (\<lambda>sample. dict_to_list (field_names_of ?samples) (build_row (children sample) []))
      ?samples = map Inr ?data"
    by (simp add: row_cells tags_in_field_names)
  ultimately show ?thesis by blast
qed

theorem xml_to_csv_header_and_rows_witness:
  "csv_at (fst (xml_to_csv
       [([''xml''], Dir), ([''xml'', ''csv''], Dir),
        ([''xml'', ''a.xml''], File (Xml (Element ''Root'' None
           [Element ''Sample'' None [Element ''Name'' (Some ''Alice'') [], Element ''Age'' (Some ''30'') []],
            Element ''Sample'' None [Element ''Name'' (Some ''Bob'') [], Element ''City'' (Some ''NYC'') []]])))]
       [''xml'', ''a.xml''] [''xml'', ''csv'', ''a.csv'']))
     [''xml'', ''csv'', ''a.csv'']
   = Some [[''Name'', ''Age'', ''City''], [''Alice'', ''30'', ''''], [''Bob'', '''', ''NYC'']]"
proof -
  let ?root = "Element ''Root'' None
           [Element ''Sample'' None [Element ''Name'' (Some ''Alice'') [], Element ''Age'' (Some ''30'') []],
            Element ''Sample'' None [Element ''Name'' (Some ''Bob'') [], Element ''City'' (Some ''NYC'') []]]"
  let ?fs = "[([''xml''], Dir), ([''xml'', ''csv''], Dir), ([''xml'', ''a.xml''], File (Xml ?root))]"
  let ?c = "[''xml'', ''csv'', ''a.csv'']"
  have h1: "ET_parse ?fs [''xml'', ''a.xml''] = Inr ?root"
    by (simp add: ET_parse_def lookup_def)
  have h2: "findall_Sample ?root \<noteq> []"
    by (simp add: findall_Sample_def findall_descendant_def)
  have h3: "open_w ?fs ?c = Inr (AList.update ?c (File (Csv [])) ?fs)"
    by (simp add: open_w_def lookup_def)
  have s: "findall_Sample ?root =
      [Element ''Sample'' None [Element ''Name'' (Some ''Alice'') [], Element ''Age'' (Some ''30'') []],
       Element ''Sample'' None [Element ''Name'' (Some ''Bob'') [], Element ''City'' (Some ''NYC'') []]]"
    by (simp add: findall_Sample_def findall_descendant_def)
  show ?thesis
    using xml_to_csv_header_and_rows [OF h1 h2 h3]
    by (auto simp: s field_names_of_def dict_to_list_def restval_def map_eq_Cons_conv)
qed

text \<open>
  Claim C3: for every sample and every declared column, the emitted cell is the empty
  string when the sample has no direct child with that tag; otherwise it is decided by
  the child with that tag that was assigned last: the empty string when its text is
  null, and its text otherwise.
\<close>

theorem xml_to_csv_cell_default_fill:
  assumes "ET_parse fs x = Inr root" and "open_w fs c = Inr fs1"
    and "i < length (findall_Sample root)"
    and "column \<in> set (field_names_of (findall_Sample root))"
  shows "\<exists>rows. csv_at (fst (xml_to_csv fs x c)) c = Some rows
      \<and> emitted_cell rows i column =
          Some (case find (\<lambda>child. tag child = column) (rev (children (findall_Sample root ! i))) of
                  None \<Rightarrow> ''''
                | Some child \<Rightarrow> (case text_of child of None \<Rightarrow> '''' | Some s \<Rightarrow> s))"
proof -
  have ne: "findall_Sample root \<noteq> []" using assms(3) by auto
  show ?thesis
    using open_w_lookup [OF assms(2)] assms(3,4)
    by (simp add: xml_to_csv_written [OF assms(1) ne assms(2)] csv_at_update emitted_cell_rows
        expected_cell_def cell_text_def split: option.split)
qed

theorem xml_to_csv_cell_default_fill_witness:
  "\<exists>rows. csv_at (fst (xml_to_csv
       [([''xml''], Dir), ([''xml'', ''csv''], Dir),
        ([''xml'', ''a.xml''], File (Xml (Element ''Root'' None
           [Element ''Sample'' None [Element ''Name'' (Some ''Alice'') [], Element ''Age'' (Some ''30'') []],
            Element ''Sample'' None [Element ''Name'' None [], Element ''City'' (Some ''NYC'') []]])))]
       [''xml'', ''a.xml''] [''xml'', ''csv'', ''a.csv'']))
     [''xml'', ''csv'', ''a.csv''] = Some rows
   \<and> emitted_cell rows 1 ''Age'' = Some ''''
   \<and> emitted_cell rows 1 ''Name'' = Some ''''
   \<and> emitted_cell rows 1 ''City'' = Some ''NYC''"
proof -
  let ?root = "Element ''Root'' None
           [Element ''Sample'' None [Element ''Name'' (Some ''Alice'') [], Element ''Age'' (Some ''30'') []],
            Element ''Sample'' None [Element ''Name'' None [], Element ''City'' (Some ''NYC'') []]]"
  let ?fs = "[([''xml''], Dir), ([''xml'', ''csv''], Dir), ([''xml'', ''a.xml''], File (Xml ?root))]"
  let ?c = "[''xml'', ''csv'', ''a.csv'']"
  have h1: "ET_parse ?fs [''xml'', ''a.xml''] = Inr ?root"
    by (simp add: ET_parse_def lookup_def)
  have h2: "open_w ?fs ?c = Inr (AList.update ?c (File (Csv [])) ?fs)"
    by (simp add: open_w_def lookup_def)
  have s: "findall_Sample ?root =
      [Element ''Sample'' None [Element ''Name'' (Some ''Alice'') [], Element ''Age'' (Some ''30'') []],
       Element ''Sample'' None [Element ''Name'' None [], Element ''City'' (Some ''NYC'') []]]"
    by (simp add: findall_Sample_def findall_descendant_def)
  have f: "field_names_of (findall_Sample ?root) = [''Name'', ''Age'', ''City'']"
    by (simp add: s field_names_of_def)
  have i: "1 < length (findall_Sample ?root)" by (simp add: s)
  have "''Age'' \<in> set (field_names_of (findall_Sample ?root))"
    and "''Name'' \<in> set (field_names_of (findall_Sample ?root))"
    and "''City'' \<in> set (field_names_of (findall_Sample ?root))"
    by (simp_all add: f)
  then show ?thesis
    using xml_to_csv_cell_default_fill [OF h1 h2 i, of "''Age''"]
      xml_to_csv_cell_default_fill [OF h1 h2 i, of "''Name''"]
      xml_to_csv_cell_default_fill [OF h1 h2 i, of "''City''"]
    by (auto simp: s)
qed

lemma expected_cell_last:
  "children sample = pre @ Element X tx cs # post \<Longrightarrow> X \<notin> tag ` set post \<Longrightarrow>
   expected_cell sample X = (case tx of None \<Rightarrow> '''' | Some s \<Rightarrow> s)"
proof -
  assume c: "children sample = pre @ Element X tx cs # post" and n: "X \<notin> tag ` set post"
  have "find (\<lambda>child. tag child = X) (rev post) = None"
    using n by (auto simp: find_None_iff)
  then show ?thesis
    by (simp add: expected_cell_def c find_app cell_text_def)
qed

text \<open>
  Claim C4: when a sample has several direct children with the same tag \<open>X\<close>, the
  emitted cell for \<open>X\<close> is the text of the last such child in document order; for
  texts \<open>a\<close> then \<open>b\<close> the cell is \<open>b\<close>.
\<close>

theorem xml_to_csv_cell_last_wins:
  assumes "ET_parse fs x = Inr root" and "open_w fs c = Inr fs1"
    and "i < length (findall_Sample root)"
    and "children (findall_Sample root ! i) = pre @ Element X a cs # mid @ Element X b cs' # post"
    and "X \<notin> tag ` set post"
  shows "\<exists>rows. csv_at (fst (xml_to_csv fs x c)) c = Some rows
      \<and> emitted_cell rows i X = Some (case b of None \<Rightarrow> '''' | Some s \<Rightarrow> s)"
proof -
  have ne: "findall_Sample root \<noteq> []" using assms(3) by auto
  have col: "X \<in> set (field_names_of (findall_Sample root))"
    using tags_in_field_names [of "findall_Sample root ! i" "findall_Sample root"] assms(3,4)
    by auto
  have "children (findall_Sample root ! i) = (pre @ Element X a cs # mid) @ Element X b cs' # post"
    using assms(4) by simp
  then have "expected_cell (findall_Sample root ! i) X = (case b of None \<Rightarrow> '''' | Some s \<Rightarrow> s)"
    using assms(5) by (rule expected_cell_last)
  then show ?thesis
    using open_w_lookup [OF assms(2)] assms(3) col
    by (simp add: xml_to_csv_written [OF assms(1) ne assms(2)] csv_at_update emitted_cell_rows)
qed

theorem xml_to_csv_cell_last_wins_witness:
  "\<exists>rows. csv_at (fst (xml_to_csv
       [([''xml''], Dir), ([''xml'', ''csv''], Dir),
        ([''xml'', ''a.xml''], File (Xml (Element ''Root'' None
           [Element ''Sample'' None [Element ''X'' (Some ''a'') [], Element ''X'' (Some ''b'') []]])))]
       [''xml'', ''a.xml''] [''xml'', ''csv'', ''a.csv'']))
     [''xml'', ''csv'', ''a.csv''] = Some rows
   \<and> emitted_cell rows 0 ''X'' = Some ''b''"
proof -
  let ?root = "Element ''Root'' None
           [Element ''Sample'' None [Element ''X'' (Some ''a'') [], Element ''X'' (Some ''b'') []]]"
  let ?fs = "[([''xml''], Dir), ([''xml'', ''csv''], Dir), ([''xml'', ''a.xml''], File (Xml ?root))]"
  let ?c = "[''xml'', ''csv'', ''a.csv'']"
  have h1: "ET_parse ?fs [''xml'', ''a.xml''] = Inr ?root"
    by (simp add: ET_parse_def lookup_def)
  have h2: "open_w ?fs ?c = Inr (AList.update ?c (File (Csv [])) ?fs)"
    by (simp add: open_w_def lookup_def)
  have s: "findall_Sample ?root =
      [Element ''Sample'' None [Element ''X'' (Some ''a'') [], Element ''X'' (Some ''b'') []]]"
    by (simp add: findall_Sample_def findall_descendant_def)
  have i: "0 < length (findall_Sample ?root)" by (simp add: s)
  have c: "children (findall_Sample ?root ! 0) =
      [] @ Element ''X'' (Some ''a'') [] # [] @ Element ''X'' (Some ''b'') [] # []"
    by (simp add: s)
  have p: "''X'' \<notin> tag ` set []" by simp
  show ?thesis
    using xml_to_csv_cell_last_wins [OF h1 h2 i c p] by simp
qed

text \<open>
  Claim C7: for a well-formed document in which no sample is collected, in particular
  one with no element named \<open>Sample\<close> at all, the converter prints the warning,
  leaves the file system as it was and returns normally.
\<close>

theorem xml_to_csv_no_samples:
  "ET_parse fs x = Inr root \<Longrightarrow> findall_Sample root = [] \<Longrightarrow>
   xml_to_csv fs x c = (fs, [Warning_no_samples x])"
  by (simp add: xml_to_csv_def xml_to_csv_try_def)

theorem xml_to_csv_no_samples_witness:
  "xml_to_csv
     [([''xml''], Dir), ([''xml'', ''csv''], Dir),
      ([''xml'', ''a.xml''], File (Xml (Element ''Root'' None [Element ''Other'' (Some ''1'') []])))]
     [''xml'', ''a.xml''] [''xml'', ''csv'', ''a.csv'']
   = ([([''xml''], Dir), ([''xml'', ''csv''], Dir),
       ([''xml'', ''a.xml''], File (Xml (Element ''Root'' None [Element ''Other'' (Some ''1'') []])))],
      [Warning_no_samples [''xml'', ''a.xml'']])"
proof -
  let ?root = "Element ''Root'' None [Element ''Other'' (Some ''1'') []]"
  let ?fs = "[([''xml''], Dir), ([''xml'', ''csv''], Dir), ([''xml'', ''a.xml''], File (Xml ?root))]"
  have h1: "ET_parse ?fs [''xml'', ''a.xml''] = Inr ?root"
    by (simp add: ET_parse_def lookup_def)
  have h2: "findall_Sample ?root = []"
    by (simp add: findall_Sample_def findall_descendant_def)
  show ?thesis
    using xml_to_csv_no_samples [OF h1 h2] .
qed

section \<open>The driver\<close>

lemma lookup_update_other: "p \<noteq> c \<Longrightarrow> lookup (AList.update c v fs) p = lookup fs p"
  by (simp add: lookup_def update_conv')

lemma lookup_update_same: "c \<noteq> [] \<Longrightarrow> lookup (AList.update c v fs) c = Some v"
  by (simp add: lookup_def update_conv')

lemma xml_to_csv_try_lookup:
  "p \<noteq> c \<Longrightarrow> lookup (fst (xml_to_csv_try fs x c)) p = lookup fs p"
  by (auto simp: xml_to_csv_try_def Let_def lookup_update_other dest!: open_w_lookup
      split: sum.splits prod.splits option.splits)

lemma xml_to_csv_lookup:
  "p \<noteq> c \<Longrightarrow> lookup (fst (xml_to_csv fs x c)) p = lookup fs p"
  using xml_to_csv_try_lookup [of p c fs x]
  by (auto simp: xml_to_csv_def split: sum.splits prod.splits)

lemma process_files_lookup:
  "length p \<noteq> Suc (length d) \<Longrightarrow> lookup (fst (process_files d fs files)) p = lookup fs p"
proof (induction files arbitrary: fs)
  case Nil
  then show ?case by simp
next
  case (Cons f files)
  have ne: "p \<noteq> d @ [csv_filename_of f]" using Cons.prems by auto
  obtain fs1 out where s: "xml_to_csv fs f (d @ [csv_filename_of f]) = (fs1, out)"
    by (cases "xml_to_csv fs f (d @ [csv_filename_of f])")
  have "lookup fs1 p = lookup fs p"
    using xml_to_csv_lookup [OF ne, of fs f] s by simp
  moreover have "lookup (fst (process_files d fs1 files)) p = lookup fs1 p"
    using Cons by blast
  ultimately show ?case
    by (auto simp: s Let_def split: prod.splits)
qed

lemma process_files_append:
  "process_files d fs (pre @ post) =
     (case process_files d fs pre of (fs1, out1) \<Rightarrow>
        case process_files d fs1 post of (fs2, out2) \<Rightarrow> (fs2, out1 @ out2))"
  by (induction pre arbitrary: fs) (auto simp: Let_def split: prod.splits)

lemma ET_parse_cong: "lookup fs p = lookup fs' p \<Longrightarrow> ET_parse fs p = ET_parse fs' p"
  by (simp add: ET_parse_def)

lemma is_dir_cong: "lookup fs p = lookup fs' p \<Longrightarrow> is_dir fs p = is_dir fs' p"
  by (simp add: is_dir_def)

lemma glob_xml_member:
  "x \<in> set (glob_xml fs d) \<Longrightarrow> \<exists>name. x = d @ [name] \<and> fnmatch_xml name"
  by (auto simp: glob_xml_def split: if_splits)

lemma glob_xml_is_dir: "glob_xml fs d \<noteq> [] \<Longrightarrow> is_dir fs d"
  by (auto simp: glob_xml_def split: if_splits)

lemma os_mkdir_Inr:
  "os_mkdir fs p = Inr fs' \<Longrightarrow>
   p \<noteq> [] \<and> lookup fs p = None \<and> is_dir fs (butlast p) \<and> fs' = AList.update p Dir fs"
  by (auto simp: os_mkdir_def is_dir_def lookup_def split: if_splits option.splits node.splits)

lemma mkdir_is_dir: "mkdir parents exist_ok fs p = Inr fs' \<Longrightarrow> is_dir fs' p"
proof (induction parents exist_ok fs p arbitrary: fs' rule: mkdir.induct)
  case (1 parents exist_ok fs p)
  show ?case
  proof (cases "os_mkdir fs p")
    case (Inr f)
    then have "fs' = f" using "1.prems" by (simp add: mkdir.simps [of parents exist_ok fs p])
    then show ?thesis using os_mkdir_Inr [OF Inr] by (simp add: is_dir_def lookup_update_same)
  next
    case (Inl e)
    show ?thesis
    proof (cases "e = FileNotFoundError")
      case True
      then obtain f1 where c: "\<not> (\<not> parents \<or> butlast p = p)"
        "mkdir True True fs (butlast p) = Inr f1" "mkdir False exist_ok f1 p = Inr fs'"
        using "1.prems" Inl
        by (auto simp: mkdir.simps [of parents exist_ok fs p] split: if_splits sum.splits)
      show ?thesis using "1.IH"(2) [OF Inl True c(1) c(2) c(3)] .
    next
      case False
      then show ?thesis using "1.prems" Inl
        by (auto simp: mkdir.simps [of parents exist_ok fs p] split: if_splits)
    qed
  qed
qed

lemma mkdir_False:
  "mkdir False exist_ok fs p = Inr fs' \<Longrightarrow> fs' = fs \<or> (p \<noteq> [] \<and> fs' = AList.update p Dir fs)"
  by (auto simp: mkdir.simps [of False exist_ok fs p] split: sum.splits if_splits
      dest: os_mkdir_Inr)

lemma wf_fs_parent: "wf_fs fs \<Longrightarrow> path_exists fs p \<Longrightarrow> is_dir fs (butlast p)"
proof -
  assume w: "wf_fs fs" and e: "path_exists fs p"
  show ?thesis
  proof (cases "p = []")
    case True
    then show ?thesis by (simp add: is_dir_def lookup_def)
  next
    case False
    then obtain n where "map_of fs p = Some n" using e by (auto simp: path_exists_def lookup_def)
    then have "(p, n) \<in> set fs" by (rule map_of_SomeD)
    then show ?thesis using w by (auto simp: wf_fs_def list_all_iff)
  qed
qed

lemma mkdir_parent_is_dir:
  assumes "wf_fs fs" and "mkdir True True fs (d @ [a, b]) = Inr fs1"
  shows "is_dir fs1 (d @ [a])"
proof (cases "os_mkdir fs (d @ [a, b])")
  case (Inr f)
  then have "fs1 = f" using assms(2) by (simp add: mkdir.simps [of True True fs "d @ [a, b]"])
  then show ?thesis
    using os_mkdir_Inr [OF Inr] by (simp add: is_dir_def lookup_update_other butlast_append)
next
  case (Inl e)
  show ?thesis
  proof (cases "e = FileNotFoundError")
    case True
    then obtain f1 where c: "mkdir True True fs (d @ [a]) = Inr f1"
      "mkdir False True f1 (d @ [a, b]) = Inr fs1"
      using assms(2) Inl
      by (auto simp: mkdir.simps [of True True fs "d @ [a, b]"] butlast_append
          split: if_splits sum.splits)
    have "is_dir f1 (d @ [a])" using c(1) by (rule mkdir_is_dir)
    then show ?thesis
      using mkdir_False [OF c(2)] by (auto simp: is_dir_def lookup_update_other)
  next
    case False
    then have "fs1 = fs" "is_dir fs (d @ [a, b])"
      using assms(2) Inl
      by (auto simp: mkdir.simps [of True True fs "d @ [a, b]"] split: if_splits)
    then show ?thesis
      using wf_fs_parent [OF assms(1), of "d @ [a, b]"]
      by (simp add: path_exists_def is_dir_def butlast_append)
  qed
qed

lemma xml_to_csv_messages:
  "Error_no_xml_directory d \<notin> set (snd (xml_to_csv fs x c))"
  by (auto simp: xml_to_csv_def xml_to_csv_try_def Let_def
      split: sum.splits prod.splits option.splits if_splits)

lemma process_files_messages:
  "Error_no_xml_directory d \<notin> set (snd (process_files c fs files))"
proof (induction files arbitrary: fs)
  case Nil
  then show ?case by simp
next
  case (Cons f files)
  obtain fs1 out where s: "xml_to_csv fs f (c @ [csv_filename_of f]) = (fs1, out)"
    by (cases "xml_to_csv fs f (c @ [csv_filename_of f])")
  have "Error_no_xml_directory d \<notin> set out"
    using xml_to_csv_messages [of d fs f "c @ [csv_filename_of f]"] s by simp
  moreover have "Error_no_xml_directory d \<notin> set (snd (process_files c fs1 files))"
    using Cons by blast
  ultimately show ?case by (auto simp: s Let_def split: prod.splits)
qed

text \<open>
  Claim C10: \<open>main\<close> creates \<open>xml/csv\<close> with its parents before it tests the
  \<open>xml\<close> directory. When the creation succeeds the \<open>xml\<close> directory exists, so the
  run never prints the error of line 88, and both directories exist when the run ends,
  also when neither the directory nor any input file existed before. The file system is
  assumed well formed: every entry lies in a directory.
\<close>

theorem main_creates_xml_directory:
  assumes "wf_fs fs" and "mkdir True True fs (script_dir @ [''xml'', ''csv'']) = Inr fs1"
  shows "path_exists fs1 (script_dir @ [''xml''])
     \<and> (\<exists>fs2 out. main script_dir fs = Inr (fs2, out)
           \<and> Error_no_xml_directory (script_dir @ [''xml'']) \<notin> set out
           \<and> is_dir fs2 (script_dir @ [''xml''])
           \<and> is_dir fs2 (script_dir @ [''xml'', ''csv'']))"
proof -
  let ?x = "script_dir @ [''xml'']" and ?c = "script_dir @ [''xml'', ''csv'']"
  have x: "is_dir fs1 ?x" using assms by (rule mkdir_parent_is_dir)
  have c: "is_dir fs1 ?c" using assms(2) by (rule mkdir_is_dir)
  have e: "path_exists fs1 ?x" using x by (simp add: is_dir_def path_exists_def)
  obtain fs2 out where p: "process_files ?c fs1 (glob_xml fs1 ?x) = (fs2, out)"
    by (cases "process_files ?c fs1 (glob_xml fs1 ?x)")
  have "lookup fs2 ?x = lookup fs1 ?x" "lookup fs2 ?c = lookup fs1 ?c"
    using process_files_lookup [of ?x ?c fs1 "glob_xml fs1 ?x"]
      process_files_lookup [of ?c ?c fs1 "glob_xml fs1 ?x"] p by simp_all
  then have d2: "is_dir fs2 ?x" "is_dir fs2 ?c" using x c by (simp_all add: is_dir_def)
  have m: "Error_no_xml_directory ?x \<notin> set out"
    using process_files_messages [of ?x ?c fs1 "glob_xml fs1 ?x"] p by simp
  show ?thesis
    using e x c d2 m assms(2) p by (simp add: main_def Let_def)
qed

theorem main_creates_xml_directory_witness:
  "wf_fs [([''app''], Dir), ([''app'', ''README''], File Malformed)]
   \<and> \<not> path_exists [([''app''], Dir), ([''app'', ''README''], File Malformed)] [''app'', ''xml'']
   \<and> (\<exists>fs2 out. main [''app''] [([''app''], Dir), ([''app'', ''README''], File Malformed)] = Inr (fs2, out)
         \<and> Error_no_xml_directory [''app'', ''xml''] \<notin> set out
         \<and> is_dir fs2 [''app'', ''xml'']
         \<and> is_dir fs2 [''app'', ''xml'', ''csv''])"
proof -
  let ?fs = "[([''app''], Dir), ([''app'', ''README''], File Malformed)]"
  have h1: "wf_fs ?fs" by code_simp
  have h2: "mkdir True True ?fs ([''app''] @ [''xml'', ''csv'']) =
      Inr (?fs @ [([''app'', ''xml''], Dir), ([''app'', ''xml'', ''csv''], Dir)])"
    by code_simp
  have h3: "\<not> path_exists ?fs [''app'', ''xml'']" by code_simp
  show ?thesis
    using main_creates_xml_directory [OF h1 h2] h1 h3 by simp
qed

text \<open>
  Claim C5 at a run where the \<open>xml\<close> directory is missing: the driver creates the
  directory and its \<open>csv\<close> subdirectory, reports that no XML files were found and
  returns; the error of line 88 is not reported.
\<close>

theorem main_missing_xml_directory:
  "\<not> path_exists [([''app''], Dir)] [''app'', ''xml'']
   \<and> main [''app''] [([''app''], Dir)] =
       Inr ([([''app''], Dir), ([''app'', ''xml''], Dir), ([''app'', ''xml'', ''csv''], Dir)],
            [No_xml_files [''app'', ''xml'']])"
  by code_simp

text \<open>
  Claim C8: an exception raised by the body of the conversion of one file is caught
  there and reported, and the run goes on: the files before and after the failing one
  are processed as they would be without it and \<open>main\<close> returns normally. When the
  failure is that the file does not parse, its step leaves the file system unchanged:
  it produces no output.
\<close>

theorem main_isolates_failing_file:
  assumes mk: "mkdir True True fs (script_dir @ [''xml'', ''csv'']) = Inr fs0"
    and gl: "glob_xml fs0 (script_dir @ [''xml'']) = pre @ bad # post"
    and p1: "process_files (script_dir @ [''xml'', ''csv'']) fs0 pre = (fs1, out1)"
    and bad: "xml_to_csv_try fs1 bad (script_dir @ [''xml'', ''csv'', csv_filename_of bad]) = (fs1', Inl e)"
    and p2: "process_files (script_dir @ [''xml'', ''csv'']) fs1' post = (fs2, out2)"
  shows "main script_dir fs =
      Inr (fs2, Found_files (length pre + 1 + length post)
                # out1
                @ [Processing (last bad),
                   if e = ParseError then Error_parsing bad else Error_processing bad e,
                   Blank]
                @ out2)
     \<and> (\<forall>e'. ET_parse fs0 bad = Inl e' \<longrightarrow> fs1' = fs1 \<and> e = e')"
proof -
  let ?x = "script_dir @ [''xml'']" and ?c = "script_dir @ [''xml'', ''csv'']"
  have ex: "path_exists fs0 ?x"
    using glob_xml_is_dir [of fs0 ?x] gl by (simp add: is_dir_def path_exists_def)
  have step: "xml_to_csv fs1 bad (script_dir @ [''xml'', ''csv'', csv_filename_of bad]) =
      (fs1', [if e = ParseError then Error_parsing bad else Error_processing bad e])"
    using bad by (simp add: xml_to_csv_def)
  have "process_files ?c fs0 (pre @ bad # post) =
      (fs2, out1 @ [Processing (last bad),
                    if e = ParseError then Error_parsing bad else Error_processing bad e,
                    Blank] @ out2)"
    by (simp add: process_files_append p1 step p2 Let_def)
  then have m: "main script_dir fs =
      Inr (fs2, Found_files (length pre + 1 + length post)
                # out1
                @ [Processing (last bad),
                   if e = ParseError then Error_parsing bad else Error_processing bad e,
                   Blank]
                @ out2)"
    using mk ex gl by (simp add: main_def Let_def)
  have iso: "fs1' = fs1 \<and> e = e'" if pe: "ET_parse fs0 bad = Inl e'" for e'
  proof -
    have "bad \<in> set (glob_xml fs0 ?x)" using gl by simp
    then obtain name where "bad = ?x @ [name]" by (auto dest: glob_xml_member)
    then have "length bad \<noteq> Suc (length ?c)" by simp
    then have "lookup (fst (process_files ?c fs0 pre)) bad = lookup fs0 bad"
      by (rule process_files_lookup)
    then have "ET_parse fs1 bad = Inl e'"
      using p1 pe ET_parse_cong [of fs1 bad fs0] by simp
    then show ?thesis using bad by (simp add: xml_to_csv_try_def)
  qed
  show ?thesis using m iso by blast
qed

theorem main_isolates_failing_file_witness:
  "main [''app'']
     [([''app''], Dir), ([''app'', ''xml''], Dir),
      ([''app'', ''xml'', ''a.xml''], File (Xml (Element ''R'' None [Element ''Sample'' None [Element ''k'' (Some ''1'') []]]))),
      ([''app'', ''xml'', ''b.xml''], File Malformed),
      ([''app'', ''xml'', ''c.xml''], File (Xml (Element ''R'' None [Element ''Sample'' None [Element ''k'' (Some ''2'') []]])))]
   = Inr ([([''app''], Dir), ([''app'', ''xml''], Dir),
      ([''app'', ''xml'', ''a.xml''], File (Xml (Element ''R'' None [Element ''Sample'' None [Element ''k'' (Some ''1'') []]]))),
      ([''app'', ''xml'', ''b.xml''], File Malformed),
      ([''app'', ''xml'', ''c.xml''], File (Xml (Element ''R'' None [Element ''Sample'' None [Element ''k'' (Some ''2'') []]]))),
      ([''app'', ''xml'', ''csv''], Dir),
      ([''app'', ''xml'', ''csv'', ''a.csv''], File (Csv [[''k''], [''1'']])),
      ([''app'', ''xml'', ''csv'', ''c.csv''], File (Csv [[''k''], [''2'']]))],
     [Found_files 3,
      Processing ''a.xml'',
      Successfully_converted [''app'', ''xml'', ''a.xml''] [''app'', ''xml'', ''csv'', ''a.csv''],
      Found_samples 1, Created_columns 1, Blank,
      Processing ''b.xml'', Error_parsing [''app'', ''xml'', ''b.xml''], Blank,
      Processing ''c.xml'',
      Successfully_converted [''app'', ''xml'', ''c.xml''] [''app'', ''xml'', ''csv'', ''c.csv''],
      Found_samples 1, Created_columns 1, Blank])"
proof -
  let ?a = "([''app'', ''xml'', ''a.xml''], File (Xml (Element ''R'' None [Element ''Sample'' None [Element ''k'' (Some ''1'') []]])))"
  let ?b = "([''app'', ''xml'', ''b.xml''], File Malformed)"
  let ?c = "([''app'', ''xml'', ''c.xml''], File (Xml (Element ''R'' None [Element ''Sample'' None [Element ''k'' (Some ''2'') []]])))"
  let ?start = "[([''app''], Dir), ([''app'', ''xml''], Dir), ?a, ?b, ?c]"
  let ?made = "?start @ [([''app'', ''xml'', ''csv''], Dir)]"
  let ?first = "?made @ [([''app'', ''xml'', ''csv'', ''a.csv''], File (Csv [[''k''], [''1'']]))]"
  let ?final = "?first @ [([''app'', ''xml'', ''csv'', ''c.csv''], File (Csv [[''k''], [''2'']]))]"
  have mk: "mkdir True True ?start ([''app''] @ [''xml'', ''csv'']) = Inr ?made"
    by code_simp
  have gl: "glob_xml ?made ([''app''] @ [''xml'']) = [[''app'', ''xml'', ''a.xml'']] @ [''app'', ''xml'', ''b.xml''] # [[''app'', ''xml'', ''c.xml'']]"
    by code_simp
  have p1: "process_files ([''app''] @ [''xml'', ''csv'']) ?made [[''app'', ''xml'', ''a.xml'']] =
      (?first, [Processing ''a.xml'',
        Successfully_converted [''app'', ''xml'', ''a.xml''] [''app'', ''xml'', ''csv'', ''a.csv''],
        Found_samples 1, Created_columns 1, Blank])"
    by code_simp
  have bad: "xml_to_csv_try ?first [''app'', ''xml'', ''b.xml'']
      ([''app''] @ [''xml'', ''csv'', csv_filename_of [''app'', ''xml'', ''b.xml'']]) = (?first, Inl ParseError)"
    by code_simp
  have p2: "process_files ([''app''] @ [''xml'', ''csv'']) ?first [[''app'', ''xml'', ''c.xml'']] =
      (?final, [Processing ''c.xml'',
        Successfully_converted [''app'', ''xml'', ''c.xml''] [''app'', ''xml'', ''csv'', ''c.csv''],
        Found_samples 1, Created_columns 1, Blank])"
    by code_simp
  show ?thesis
    using main_isolates_failing_file [OF mk gl p1 bad p2] by simp
qed

section \<open>Output file names\<close>

lemma fnmatch_xml_iff: "fnmatch_xml name \<longleftrightarrow> (\<exists>base. name = base @ ''.xml'')"
proof
  assume f: "fnmatch_xml name"
  from f have d: "drop (length name - 4) name = ''.xml''"
    by (simp add: fnmatch_xml_def)
  have "name = take (length name - 4) name @ ''.xml''"
    using append_take_drop_id [of "length name - 4" name] by (simp only: d)
  then show "\<exists>base. name = base @ ''.xml''" ..
next
  assume "\<exists>base. name = base @ ''.xml''"
  then show "fnmatch_xml name" by (auto simp: fnmatch_xml_def)
qed

lemma rfind_dot_xml: "rfind CHR ''.'' (base @ ''.xml'') = int (length base)"
  by (simp add: rfind_def)

lemma stem_xml: "base \<noteq> [] \<Longrightarrow> stem (base @ ''.xml'') = base"
  by (simp add: stem_def rfind_dot_xml Let_def)

lemma fnmatch_xml_base:
  assumes "fnmatch_xml name" and "name \<noteq> ''.xml''"
  obtains base where "base \<noteq> []" and "name = base @ ''.xml''"
  using assms by (auto simp: fnmatch_xml_iff)

text \<open>
  Claim C9, as amended: for every matched file name other than \<open>.xml\<close> itself, the
  name is a non-empty base followed by \<open>.xml\<close>, the driver converts the file into the
  \<open>csv\<close> directory under the base followed by \<open>.csv\<close>, and two distinct such names
  have distinct output names.
\<close>

theorem csv_filename_of_xml_name:
  assumes "fnmatch_xml name" and "name \<noteq> ''.xml''"
  shows "\<exists>base. base \<noteq> [] \<and> name = base @ ''.xml''
      \<and> csv_filename_of (xml_dir @ [name]) = base @ ''.csv''
      \<and> process_files csv_dir fs [xml_dir @ [name]] =
          (fst (xml_to_csv fs (xml_dir @ [name]) (csv_dir @ [base @ ''.csv''])),
           [Processing name] @ snd (xml_to_csv fs (xml_dir @ [name]) (csv_dir @ [base @ ''.csv''])) @ [Blank])
      \<and> (\<forall>name'. fnmatch_xml name' \<and> name' \<noteq> ''.xml'' \<and> name' \<noteq> name \<longrightarrow>
            csv_filename_of (xml_dir @ [name']) \<noteq> csv_filename_of (xml_dir @ [name]))"
proof -
  obtain base where b: "base \<noteq> []" "name = base @ ''.xml''"
    using assms by (rule fnmatch_xml_base)
  have n: "csv_filename_of (xml_dir @ [name]) = base @ ''.csv''"
    using b by (simp add: csv_filename_of_def stem_xml)
  have inj: "csv_filename_of (xml_dir @ [name']) \<noteq> csv_filename_of (xml_dir @ [name])"
    if m: "fnmatch_xml name'" and d: "name' \<noteq> ''.xml''" and o: "name' \<noteq> name" for name'
  proof -
    obtain base' where b': "base' \<noteq> []" "name' = base' @ ''.xml''"
      using m d by (rule fnmatch_xml_base)
    have "csv_filename_of (xml_dir @ [name']) = base' @ ''.csv''"
      using b' by (simp add: csv_filename_of_def stem_xml)
    moreover have "base' \<noteq> base" using o b b' by auto
    ultimately show ?thesis using n by simp
  qed
  have p: "process_files csv_dir fs [xml_dir @ [name]] =
      (fst (xml_to_csv fs (xml_dir @ [name]) (csv_dir @ [base @ ''.csv''])),
       [Processing name] @ snd (xml_to_csv fs (xml_dir @ [name]) (csv_dir @ [base @ ''.csv''])) @ [Blank])"
    by (simp add: n Let_def split: prod.splits)
  show ?thesis using b n p inj by blast
qed

theorem csv_filename_of_xml_name_witness:
  "fnmatch_xml ''a.xml'' \<and> csv_filename_of [''xml'', ''a.xml''] = ''a.csv''
   \<and> csv_filename_of [''xml'', ''b.xml''] \<noteq> csv_filename_of [''xml'', ''a.xml'']"
proof -
  have h1: "fnmatch_xml ''a.xml''" by (simp add: fnmatch_xml_def)
  have h2: "''a.xml'' \<noteq> ''.xml''" by simp
  have h3: "fnmatch_xml ''b.xml'' \<and> ''b.xml'' \<noteq> ''.xml'' \<and> ''b.xml'' \<noteq> ''a.xml''"
    by (simp add: fnmatch_xml_def)
  show ?thesis
    using csv_filename_of_xml_name [OF h1 h2, of "[''xml'']" "[]" "[]"] h1 h3 by auto
qed

text \<open>
  The pattern \<open>*.xml\<close> also matches the hidden file \<open>.xml\<close>, which has no suffix for
  \<open>stem\<close>: its output name is \<open>.xml.csv\<close>, not the extension replaced, and it is
  the output name of \<open>.xml.xml\<close> as well.
\<close>

theorem csv_filename_of_collision_counterexample:
  "glob_xml [([''xml''], Dir), ([''xml'', ''.xml''], File Malformed), ([''xml'', ''.xml.xml''], File Malformed)]
      [''xml''] = [[''xml'', ''.xml''], [''xml'', ''.xml.xml'']]
   \<and> csv_filename_of [''xml'', ''.xml''] = ''.xml.csv''
   \<and> csv_filename_of [''xml'', ''.xml.xml''] = ''.xml.csv''"
  by (simp add: glob_xml_def is_dir_def lookup_def listdir_def fnmatch_xml_def csv_filename_of_def
      stem_def rfind_def Let_def)

end
